theory Spec2Isabelle
  imports Main
begin

section \<open>JavaScript values and numbers\<close>

text \<open>
  The values that travel through \<^verbatim>\<open>makeProxyEmitter\<close>: the argument of a listener is a
  frame (a string) or \<^verbatim>\<open>undefined\<close> (an array read outside the stored indices), and the
  \<^verbatim>\<open>lastEventId\<close> property of a listener is whatever the caller stored there. A string is
  a list of code units; a \<^typ>\<open>char\<close> stands for a code unit below 256 (a header value as
  Node decodes it).
\<close>

datatype jsvalue = JUndefined | JNull | JBool bool | JString string

fun ToString :: "jsvalue \<Rightarrow> string" where
  "ToString JUndefined = ''undefined''"
| "ToString JNull = ''null''"
| "ToString (JBool b) = (if b then ''true'' else ''false'')"
| "ToString (JString s) = s"

text \<open>
  A Number is a double. The Numbers met here are \<^verbatim>\<open>NaN\<close>, the two infinities and the
  finite doubles whose value is an integer: \<open>Num n\<close> is the double of value \<open>n\<close>. Every
  integer up to \<open>2 ^ 53\<close> in magnitude is a double; a larger one is rounded to the nearest
  integer with 53 significant bits, a tie to the one whose last kept bit is 0, and
  becomes an infinity when the rounded value reaches \<open>2 ^ 1024\<close>.
\<close>

datatype jsnum = NaN | Num int | PosInfinity | NegInfinity

definition MAX_SAFE_INTEGER :: int where
  "MAX_SAFE_INTEGER = 2 ^ 53 - 1"

fun bitLength :: "nat \<Rightarrow> nat" where
  "bitLength n = (if n = 0 then 0 else Suc (bitLength (n div 2)))"

declare bitLength.simps [simp del]

definition roundToDouble :: "nat \<Rightarrow> nat" where
  "roundToDouble n =
     (if n < 2 ^ 53 then n
      else let e = bitLength n - 53;
               q = n div 2 ^ e;
               r = n mod 2 ^ e;
               half = 2 ^ (e - 1)
           in (if half < r \<or> (r = half \<and> odd q) then q + 1 else q) * 2 ^ e)"

definition double_of :: "int \<Rightarrow> int" where
  "double_of i = sgn i * int (roundToDouble (nat \<bar>i\<bar>))"

text \<open>The Number value of a mathematical integer.\<close>

definition NumberValue :: "int \<Rightarrow> jsnum" where
  "NumberValue i =
     (if 2 ^ 1024 \<le> \<bar>double_of i\<bar> then (if i < 0 then NegInfinity else PosInfinity)
      else Num (double_of i))"

text \<open>
  \<^verbatim>\<open>n + 1\<close> for a finite double \<open>n\<close> of integer value: the double nearest to the sum
  (never an infinity: the largest double plus one rounds back to it).
\<close>

definition plus_one :: "int \<Rightarrow> int" where
  "plus_one n = double_of (n + 1)"

definition isWhiteSpace :: "char \<Rightarrow> bool" where
  "isWhiteSpace c = ((of_char c :: nat) \<in> {9, 10, 11, 12, 13, 32, 160})"

definition isDigit :: "char \<Rightarrow> bool" where
  "isDigit c = (48 \<le> (of_char c :: nat) \<and> (of_char c :: nat) \<le> 57)"

definition digitVal :: "char \<Rightarrow> int" where
  "digitVal c = int (of_char c) - 48"

text \<open>
  \<^verbatim>\<open>parseInt(v, 10)\<close>: the string of \<open>v\<close>, leading white space dropped, an optional sign,
  then the longest prefix of decimal digits; no digit gives \<^verbatim>\<open>NaN\<close>. The digits are
  read exactly and the result is rounded once, as V8 does.
\<close>

definition parseInt :: "jsvalue \<Rightarrow> jsnum" where
  "parseInt v =
     (let S = dropWhile isWhiteSpace (ToString v);
          sign = (if S \<noteq> [] \<and> hd S = CHR ''-'' then - 1 else 1);
          S' = (if S \<noteq> [] \<and> (hd S = CHR ''+'' \<or> hd S = CHR ''-'') then tl S else S);
          Z = takeWhile isDigit S'
      in if Z = [] then NaN
         else let mathInt = foldl (\<lambda>a c. 10 * a + digitVal c) 0 Z
              in NumberValue (sign * mathInt))"

text \<open>
  The decimal string of an integer, as string concatenation renders a Number of integer
  value below \<open>10 ^ 21\<close> in magnitude.
\<close>

definition digitChar :: "nat \<Rightarrow> char" where
  "digitChar d = ''0123456789'' ! d"

fun decimal :: "nat \<Rightarrow> string" where
  "decimal n = (if n < 10 then [digitChar n] else decimal (n div 10) @ [digitChar (n mod 10)])"

declare decimal.simps [simp del]

definition NumberToString :: "int \<Rightarrow> string" where
  "NumberToString n = (if n < 0 then CHR ''-'' # decimal (nat (- n)) else decimal (nat n))"

section \<open>The proxy emitter\<close>

text \<open>
  A listener is a function object: its identity, its own \<^verbatim>\<open>lastEventId\<close> property (if
  any) and what a read of \<^verbatim>\<open>lastEventId\<close> finds on its prototype chain (if anything). A
  listener is passive: a call to it is recorded and does nothing else.
\<close>

record listener =
  lid :: nat
  own_lastEventId :: "jsvalue option"
  proto_lastEventId :: "jsvalue option"

definition hasOwnProperty_lastEventId :: "listener \<Rightarrow> bool" where
  "hasOwnProperty_lastEventId l = (own_lastEventId l \<noteq> None)"

definition get_lastEventId :: "listener \<Rightarrow> jsvalue" where
  "get_lastEventId l =
     (case own_lastEventId l of
        Some v \<Rightarrow> v
      | None \<Rightarrow> (case proto_lastEventId l of Some v \<Rightarrow> v | None \<Rightarrow> JUndefined))"

text \<open>
  \<^verbatim>\<open>messageHistory\<close> is an array: an element is a string or a hole. A read of a hole, of a
  negative index or of an index from the length on gives \<^verbatim>\<open>undefined\<close>; a write at an
  index from the length on extends the array, with holes in between.
\<close>

type_synonym js_array = "string option list"

definition cell :: "string option \<Rightarrow> jsvalue" where
  "cell x = (case x of None \<Rightarrow> JUndefined | Some s \<Rightarrow> JString s)"

definition array_get :: "js_array \<Rightarrow> int \<Rightarrow> jsvalue" where
  "array_get xs i =
     (if 0 \<le> i \<and> i < int (length xs) then cell (xs ! nat i) else JUndefined)"

definition array_set :: "js_array \<Rightarrow> nat \<Rightarrow> string \<Rightarrow> js_array" where
  "array_set xs i s =
     (if i < length xs then xs[i := Some s]
      else xs @ replicate (i - length xs) None @ [Some s])"

text \<open>
  The state of one proxy: the two variables of the closure, the listeners of the proxy in
  registration order (each with the event name it was added for), and the calls made to
  listeners so far. \<open>deliveries\<close> are the calls made by the replay loop and by
  \<^verbatim>\<open>emit('data', ...)\<close>, oldest first: who was called, and with what. \<open>notifications\<close>
  are the calls the emitter itself makes to the listeners a caller added for
  \<^verbatim>\<open>newListener\<close> or \<^verbatim>\<open>removeListener\<close>, oldest first: who was called, for which of
  the two, and with which event name and which listener as arguments. The counter is a
  natural number: it counts the entries of the history, and a double counts exactly up
  to \<open>2 ^ 53\<close>.
\<close>

type_synonym notification = "nat \<times> string \<times> string \<times> nat"

record proxy_state =
  messageHistory :: js_array
  serverCurrentID :: nat
  listeners :: "(string \<times> listener) list"
  deliveries :: "(nat \<times> jsvalue) list"
  notifications :: "notification list"

definition makeProxyEmitter :: proxy_state where
  "makeProxyEmitter =
     \<lparr>messageHistory = [], serverCurrentID = 0, listeners = [], deliveries = [],
      notifications = []\<rparr>"

definition received :: "nat \<Rightarrow> proxy_state \<Rightarrow> jsvalue list" where
  "received x st = map snd (filter (\<lambda>d. fst d = x) (deliveries st))"

subsection \<open>Registration and replay\<close>

text \<open>
  The first index of the replay: one past the last-seen id when the listener has an own
  \<^verbatim>\<open>lastEventId\<close> and \<^verbatim>\<open>Number.isFinite\<close> holds of its parse, else 0.
\<close>

definition startEventId :: "listener \<Rightarrow> int" where
  "startEventId l =
     (if hasOwnProperty_lastEventId l
      then (case parseInt (get_lastEventId l) of
              Num lastEventId \<Rightarrow> plus_one lastEventId
            | _ \<Rightarrow> 0)
      else 0)"

text \<open>
  \<^verbatim>\<open>++id\<close> in the loop. An id from 0 on that the loop increments is an index below the
  length of the array, which JavaScript keeps below \<open>2 ^ 32\<close>: the increment is exact. A
  negative id is incremented as a double is: below \<open>- (2 ^ 53)\<close> the sum is rounded, and
  may be the id itself.
\<close>

definition increment :: "int \<Rightarrow> int" where
  "increment eid = (if 0 \<le> eid then eid + 1 else plus_one eid)"

text \<open>
  The loop of the \<^verbatim>\<open>newListener\<close> handler, with the arguments of the calls it has made
  so far. \<open>None\<close>: the loop does not end.
\<close>

partial_function (option) replay_loop :: "int \<Rightarrow> js_array \<Rightarrow> jsvalue list \<Rightarrow> jsvalue list option" where
  "replay_loop eid hist sent =
     (if eid < int (length hist)
      then replay_loop (increment eid) hist (sent @ [array_get hist eid])
      else Some sent)"

text \<open>What the loop sends when every increment is exact.\<close>

function replay :: "int \<Rightarrow> js_array \<Rightarrow> jsvalue list" where
  "replay eid hist =
     (if eid < int (length hist) then array_get hist eid # replay (eid + 1) hist else [])"
  by pat_completeness auto
termination
  by (relation "measure (\<lambda>(eid, hist). nat (int (length hist) - eid))") auto

declare replay.simps [simp del]

definition newListener :: "string \<Rightarrow> listener \<Rightarrow> proxy_state \<Rightarrow> proxy_state option" where
  "newListener event l st =
     (if event = ''data''
      then (case replay_loop (startEventId l) (messageHistory st) [] of
              None \<Rightarrow> None
            | Some sent \<Rightarrow>
                Some (st\<lparr>deliveries := deliveries st @ map (\<lambda>v. (lid l, v)) sent\<rparr>))
      else Some st)"

text \<open>
  \<^verbatim>\<open>emit(about, event, l)\<close> for \<open>about\<close> one of \<^verbatim>\<open>newListener\<close> and \<^verbatim>\<open>removeListener\<close>,
  as far as it reaches the listeners a caller added for \<open>about\<close>.
\<close>

definition listeners_of :: "string \<Rightarrow> proxy_state \<Rightarrow> listener list" where
  "listeners_of event st = map snd (filter (\<lambda>(e, l'). e = event) (listeners st))"

definition notify :: "string \<Rightarrow> string \<Rightarrow> listener \<Rightarrow> proxy_state \<Rightarrow> proxy_state" where
  "notify about event l st =
     st\<lparr>notifications := notifications st
          @ map (\<lambda>x. (lid x, about, event, lid l)) (listeners_of about st)\<rparr>"

text \<open>
  \<^verbatim>\<open>proxy.on(event, l)\<close>: the emitter first emits \<^verbatim>\<open>newListener\<close>, which runs the handler
  above (added first, by \<^verbatim>\<open>makeProxyEmitter\<close>) and then the listeners a caller added for
  \<^verbatim>\<open>newListener\<close>; then it appends \<open>l\<close> to the listeners of \<open>event\<close>.
\<close>

definition proxy_on :: "string \<Rightarrow> listener \<Rightarrow> proxy_state \<Rightarrow> proxy_state option" where
  "proxy_on event l st =
     (case newListener event l st of
        None \<Rightarrow> None
      | Some st1 \<Rightarrow>
          Some ((notify ''newListener'' event l st1)\<lparr>listeners := listeners st1 @ [(event, l)]\<rparr>))"

text \<open>
  \<^verbatim>\<open>proxy.removeListener(event, l)\<close>: the most recently added registration of that
  function for that event is dropped, and \<^verbatim>\<open>removeListener\<close> is emitted; nothing happens
  when there is no such registration.
\<close>

fun remove_first :: "('a \<Rightarrow> bool) \<Rightarrow> 'a list \<Rightarrow> 'a list" where
  "remove_first P [] = []"
| "remove_first P (x # xs) = (if P x then xs else x # remove_first P xs)"

definition removeListener :: "string \<Rightarrow> listener \<Rightarrow> proxy_state \<Rightarrow> proxy_state" where
  "removeListener event l st =
     (if list_ex (\<lambda>(e, l'). e = event \<and> lid l' = lid l) (listeners st)
      then notify ''removeListener'' event l
             (st\<lparr>listeners :=
                  rev (remove_first (\<lambda>(e, l'). e = event \<and> lid l' = lid l) (rev (listeners st)))\<rparr>)
      else st)"

subsection \<open>Commit\<close>

definition data_listeners :: "proxy_state \<Rightarrow> listener list" where
  "data_listeners st = map snd (filter (\<lambda>(e, l'). e = ''data'') (listeners st))"

definition write_data :: "string \<Rightarrow> proxy_state \<Rightarrow> proxy_state" where
  "write_data string st =
     st\<lparr>deliveries := deliveries st @ map (\<lambda>l'. (lid l', JString string)) (data_listeners st)\<rparr>"

definition frame_of :: "nat \<Rightarrow> string \<Rightarrow> string" where
  "frame_of eid string = ''id: '' @ NumberToString (int eid) @ [CHR 0x0A] @ string"

definition writeSavingID :: "string \<Rightarrow> proxy_state \<Rightarrow> proxy_state" where
  "writeSavingID string st =
     (let eid = serverCurrentID st;
          st1 = st\<lparr>serverCurrentID := eid + 1\<rparr>;
          st2 = st1\<lparr>messageHistory := array_set (messageHistory st1) eid (frame_of eid string)\<rparr>
      in write_data (frame_of eid string) st2)"

text \<open>
  A run of commits, and the value of the local \<^verbatim>\<open>id\<close> in each call of
  \<^verbatim>\<open>writeSavingID\<close> of such a run.
\<close>

fun commits :: "string list \<Rightarrow> proxy_state \<Rightarrow> proxy_state" where
  "commits [] st = st"
| "commits (s # ss) st = commits ss (writeSavingID s st)"

fun assigned_ids :: "string list \<Rightarrow> proxy_state \<Rightarrow> nat list" where
  "assigned_ids [] st = []"
| "assigned_ids (s # ss) st = serverCurrentID st # assigned_ids ss (writeSavingID s st)"

text \<open>
  The frames a run of commits stores when it starts at counter \<open>n\<close>, and how many times a
  function is registered for \<^verbatim>\<open>data\<close>.
\<close>

fun frames_from :: "nat \<Rightarrow> string list \<Rightarrow> string list" where
  "frames_from n [] = []"
| "frames_from n (s # ss) = frame_of n s # frames_from (Suc n) ss"

definition registrations :: "nat \<Rightarrow> proxy_state \<Rightarrow> nat" where
  "registrations x st = length (filter (\<lambda>l'. lid l' = x) (data_listeners st))"

text \<open>
  What holds of the closure's variables in every state the operations reach: the counter
  is the length of the history, and the history has no hole.
\<close>

definition consistent :: "proxy_state \<Rightarrow> bool" where
  "consistent st =
     (serverCurrentID st = length (messageHistory st) \<and> list_all (\<lambda>x. x \<noteq> None) (messageHistory st))"

section \<open>Handlers and the wiring to the source emitter\<close>

text \<open>
  An entry of the event specification: \<^verbatim>\<open>true\<close>, or an object with an optional
  \<^verbatim>\<open>name\<close> and an optional \<^verbatim>\<open>preProcessor\<close>. A pre-processor is given the arguments
  of the event and a continuation; it is the function from the arguments to the value it
  hands to the continuation, \<open>None\<close> when it does not call it.
\<close>

record eventSpec =
  spec_name :: "string option"
  spec_preProcessor :: "(jsvalue list \<Rightarrow> jsvalue option) option"

datatype spec = SpecTrue | SpecObject eventSpec

text \<open>
  Modelled from the spec: the frame formatter of \<^verbatim>\<open>lib/makeHandler.js\<close>, which is not
  among the sources. The encoding of the payload is a parameter.
\<close>

definition format :: "(jsvalue \<Rightarrow> string) \<Rightarrow> string \<Rightarrow> jsvalue \<Rightarrow> string" where
  "format serialize eventName payload =
     ''event: '' @ eventName @ [CHR 0x0A] @ ''data: '' @ serialize payload @ [CHR 0x0A, CHR 0x0A]"

definition effective_name :: "string \<Rightarrow> spec \<Rightarrow> string" where
  "effective_name sourceEventName sp =
     (case sp of
        SpecTrue \<Rightarrow> sourceEventName
      | SpecObject ob \<Rightarrow> (case spec_name ob of None \<Rightarrow> sourceEventName | Some n \<Rightarrow> n))"

definition preProcessor_of :: "spec \<Rightarrow> (jsvalue list \<Rightarrow> jsvalue option) option" where
  "preProcessor_of sp = (case sp of SpecTrue \<Rightarrow> None | SpecObject ob \<Rightarrow> spec_preProcessor ob)"

definition first_argument :: "jsvalue list \<Rightarrow> jsvalue" where
  "first_argument args = (case args of [] \<Rightarrow> JUndefined | a # _ \<Rightarrow> a)"

text \<open>
  Modelled from the spec: \<^verbatim>\<open>makeHandler(sourceEventName, spec, sink)\<close> of
  \<^verbatim>\<open>lib/makeHandler.js\<close>, which is not among the sources. The handler is the function
  of the arguments of one occurrence of the event; the sink acts on a state \<open>'s\<close>.
\<close>

definition makeHandler ::
  "(jsvalue \<Rightarrow> string) \<Rightarrow> string \<Rightarrow> spec \<Rightarrow> (string \<Rightarrow> 's \<Rightarrow> 's) \<Rightarrow> jsvalue list \<Rightarrow> 's \<Rightarrow> 's" where
  "makeHandler serialize sourceEventName sp sink args st =
     (case preProcessor_of sp of
        None \<Rightarrow> sink (format serialize (effective_name sourceEventName sp) (first_argument args)) st
      | Some pp \<Rightarrow>
          (case pp args of
             None \<Rightarrow> st
           | Some v \<Rightarrow> sink (format serialize (effective_name sourceEventName sp) v) st))"

text \<open>A sink that collects the frames it is given, and a handler called once per occurrence.\<close>

definition push :: "string \<Rightarrow> string list \<Rightarrow> string list" where
  "push string filtered = filtered @ [string]"

fun calls :: "(jsvalue list \<Rightarrow> 's \<Rightarrow> 's) \<Rightarrow> jsvalue list list \<Rightarrow> 's \<Rightarrow> 's" where
  "calls handler [] st = st"
| "calls handler (args # rest) st = calls handler rest (handler args st)"

text \<open>
  \<^verbatim>\<open>makeProxyEmitter\<close> attaches one handler to the source emitter for each key of
  \<^verbatim>\<open>eventSpecs\<close>, with \<^verbatim>\<open>writeSavingID\<close> as its sink. \<open>source_emit\<close> is what an
  \<^verbatim>\<open>emit\<close> of the source emitter does to the proxy through these handlers.
\<close>

definition source_emit ::
  "(jsvalue \<Rightarrow> string) \<Rightarrow> (string \<rightharpoonup> spec) \<Rightarrow> string \<Rightarrow> jsvalue list \<Rightarrow> proxy_state \<Rightarrow> proxy_state" where
  "source_emit serialize eventSpecs eventName args st =
     (case eventSpecs eventName of
        None \<Rightarrow> st
      | Some sp \<Rightarrow> makeHandler serialize eventName sp writeSavingID args st)"

section \<open>Doubles of integer value\<close>

lemma bitLength_upper: "n < 2 ^ bitLength n"
proof (induction n rule: bitLength.induct)
  case (1 n)
  show ?case
  proof (cases "n = 0")
    case True
    then show ?thesis by simp
  next
    case False
    then have "n div 2 < 2 ^ bitLength (n div 2)" using "1.IH" by simp
    then have "n < 2 * 2 ^ bitLength (n div 2)" by arith
    then show ?thesis using False by (simp add: bitLength.simps [of n])
  qed
qed

lemma bitLength_lower: "n \<noteq> 0 \<Longrightarrow> 2 ^ (bitLength n - 1) \<le> n"
proof (induction n rule: bitLength.induct)
  case (1 n)
  show ?case
  proof (cases "n div 2 = 0")
    case True
    with "1.prems" have "n = 1" by arith
    then show ?thesis by (simp add: bitLength.simps [of "Suc 0"] bitLength.simps [of 0])
  next
    case False
    then have ih: "2 ^ (bitLength (n div 2) - 1) \<le> n div 2"
      using "1.IH" "1.prems" by simp
    have pos: "0 < bitLength (n div 2)"
      using False by (simp add: bitLength.simps [of "n div 2"])
    have "bitLength n - 1 = Suc (bitLength (n div 2) - 1)"
      using "1.prems" pos by (simp add: bitLength.simps [of n])
    moreover have "2 * 2 ^ (bitLength (n div 2) - 1) \<le> n"
      using ih by arith
    ultimately show ?thesis by simp
  qed
qed

lemma bitLength_gt: "2 ^ k \<le> n \<Longrightarrow> k < bitLength n"
proof -
  assume "2 ^ k \<le> n"
  then have "(2::nat) ^ k < 2 ^ bitLength n"
    using bitLength_upper [of n] by (rule le_less_trans)
  then show ?thesis by simp
qed

lemma roundToDouble_small: "n < 2 ^ 53 \<Longrightarrow> roundToDouble n = n"
  by (simp add: roundToDouble_def)

lemma power_le_div_mult:
  fixes b e n :: nat
  assumes "e \<le> b" and "2 ^ b \<le> n"
  shows "2 ^ b \<le> n div 2 ^ e * 2 ^ e"
proof -
  obtain p where b: "b = p + e" using assms(1) by (metis le_add_diff_inverse2)
  have "(2::nat) ^ p * 2 ^ e \<le> n" using assms(2) by (simp add: b power_add)
  then have "2 ^ p \<le> n div 2 ^ e" by (simp add: less_eq_div_iff_mult_less_eq)
  then have "(2::nat) ^ p * 2 ^ e \<le> n div 2 ^ e * 2 ^ e" by simp
  then show ?thesis by (simp add: b power_add)
qed

lemma roundToDouble_ge_floor:
  "\<not> n < 2 ^ 53 \<Longrightarrow> n div 2 ^ (bitLength n - 53) * 2 ^ (bitLength n - 53) \<le> roundToDouble n"
  by (simp add: roundToDouble_def Let_def)

lemma roundToDouble_lower:
  assumes k: "53 \<le> k" and n: "2 ^ k \<le> n"
  shows "2 ^ k \<le> roundToDouble n"
proof -
  let ?b = "bitLength n"
  have kb: "k < ?b" using n by (rule bitLength_gt)
  have n0: "n \<noteq> 0" using n by (cases "n = 0") simp_all
  have "(2::nat) ^ 53 \<le> 2 ^ k" using k by (intro power_increasing) simp_all
  then have "(2::nat) ^ 53 \<le> n" using n by (rule le_trans)
  then have big: "\<not> n < 2 ^ 53" by (simp only: not_less)
  have "(2::nat) ^ k \<le> 2 ^ (?b - 1)" using kb by (intro power_increasing) simp_all
  also have "\<dots> \<le> n div 2 ^ (?b - 53) * 2 ^ (?b - 53)"
    using bitLength_lower [OF n0] by (intro power_le_div_mult) simp_all
  also have "\<dots> \<le> roundToDouble n"
    using big by (rule roundToDouble_ge_floor)
  finally show ?thesis .
qed

lemma bitLength_power: "bitLength (2 ^ k) = Suc k"
proof (induction k)
  case 0
  show ?case by (simp add: bitLength.simps [of "Suc 0"] bitLength.simps [of 0])
next
  case (Suc k)
  then show ?case by (simp add: bitLength.simps [of "2 * 2 ^ k"])
qed

lemma roundToDouble_2p53: "roundToDouble (2 ^ 53) = 2 ^ 53"
proof -
  have "bitLength (2 ^ 53) - 53 = 1" by (simp add: bitLength_power del: power_numeral)
  then show ?thesis
    unfolding roundToDouble_def Let_def by (simp del: power_numeral)
qed

lemma roundToDouble_exact: "n \<le> 2 ^ 53 \<Longrightarrow> roundToDouble n = n"
  using roundToDouble_small [of n] roundToDouble_2p53 by (cases "n = 2 ^ 53") simp_all

lemma double_of_exact: "\<bar>i\<bar> \<le> 2 ^ 53 \<Longrightarrow> double_of i = i"
proof -
  assume a: "\<bar>i\<bar> \<le> 2 ^ 53"
  then have "nat \<bar>i\<bar> \<le> 2 ^ 53" by simp
  then have "roundToDouble (nat \<bar>i\<bar>) = nat \<bar>i\<bar>" by (rule roundToDouble_exact)
  then show ?thesis by (simp add: double_of_def sgn_if)
qed

lemma NumberValue_exact: "\<bar>i\<bar> \<le> 2 ^ 53 \<Longrightarrow> NumberValue i = Num i"
  by (simp add: NumberValue_def double_of_exact)

lemma plus_one_exact: "- (2 ^ 53) - 1 \<le> n \<Longrightarrow> n < 2 ^ 53 \<Longrightarrow> plus_one n = n + 1"
  by (simp add: plus_one_def double_of_exact)

lemma plus_one_large: "2 ^ 53 \<le> n \<Longrightarrow> 2 ^ 53 \<le> plus_one n"
proof -
  assume n: "2 ^ 53 \<le> n"
  then have "(2::nat) ^ 53 \<le> nat \<bar>n + 1\<bar>" by simp
  then have "(2::nat) ^ 53 \<le> roundToDouble (nat \<bar>n + 1\<bar>)"
    by (intro roundToDouble_lower) simp_all
  then have "(2::int) ^ 53 \<le> int (roundToDouble (nat \<bar>n + 1\<bar>))"
    by (metis of_nat_le_iff of_nat_numeral of_nat_power)
  then show ?thesis using n by (simp add: plus_one_def double_of_def sgn_if)
qed

lemma increment_exact: "- (2 ^ 53) \<le> eid \<Longrightarrow> increment eid = eid + 1"
  by (simp add: increment_def plus_one_exact)

lemma replay_loop_exact:
  "- (2 ^ 53) \<le> eid \<Longrightarrow> replay_loop eid hist sent = Some (sent @ replay eid hist)"
proof (induction eid hist arbitrary: sent rule: replay.induct)
  case (1 eid hist)
  show ?case
  proof (cases "eid < int (length hist)")
    case True
    have "replay_loop eid hist sent
            = replay_loop (eid + 1) hist (sent @ [array_get hist eid])"
      using True "1.prems" by (subst replay_loop.simps) (simp add: increment_exact)
    also have "\<dots> = Some ((sent @ [array_get hist eid]) @ replay (eid + 1) hist)"
      using "1.prems" by (intro "1.IH" [OF True]) simp
    also have "\<dots> = Some (sent @ replay eid hist)"
      using True by (simp add: replay.simps [of eid])
    finally show ?thesis .
  next
    case False
    then show ?thesis
      by (subst replay_loop.simps) (simp add: replay.simps [of eid])
  qed
qed

lemma replay_loop_stuck:
  assumes "eid < int (length hist)" and "increment eid = eid"
  shows "replay_loop eid hist sent = None"
proof (rule ccontr)
  assume "replay_loop eid hist sent \<noteq> None"
  then obtain y where y: "replay_loop eid hist sent = Some y" by auto
  have "\<not> (eid < int (length hist) \<and> increment eid = eid)"
  proof (rule replay_loop.raw_induct
      [where P = "\<lambda>e h s y. \<not> (e < int (length h) \<and> increment e = e)", OF _ y])
    fix rl e h s y'
    assume IH: "\<And>e' h' s' y. rl e' h' s' = Some y \<Longrightarrow> \<not> (e' < int (length h') \<and> increment e' = e')"
      and eq: "(if e < int (length h) then rl (increment e) h (s @ [array_get h e]) else Some s)
               = Some y'"
    show "\<not> (e < int (length h) \<and> increment e = e)"
    proof
      assume a: "e < int (length h) \<and> increment e = e"
      with eq have "rl e h (s @ [array_get h e]) = Some y'" by simp
      from IH [OF this] a show False by simp
    qed
  qed
  with assms show False by simp
qed

section \<open>The counter\<close>

lemma serverCurrentID_writeSavingID [simp]:
  "serverCurrentID (writeSavingID s st) = Suc (serverCurrentID st)"
  by (simp add: writeSavingID_def write_data_def Let_def)

lemma assigned_ids_from:
  "assigned_ids ss st = [serverCurrentID st ..< serverCurrentID st + length ss]"
proof (induction ss arbitrary: st)
  case Nil
  show ?case by simp
next
  case (Cons s ss)
  let ?n = "serverCurrentID st"
  have a: "assigned_ids (s # ss) st = ?n # [Suc ?n ..< Suc ?n + length ss]"
    by (simp add: Cons.IH)
  have b: "[?n ..< ?n + length (s # ss)] = ?n # [Suc ?n ..< ?n + length (s # ss)]"
    by (rule upt_conv_Cons) simp
  have c: "Suc ?n + length ss = ?n + length (s # ss)"
    by simp
  show ?case unfolding a b c ..
qed

lemma serverCurrentID_commits:
  "serverCurrentID (commits ss st) = serverCurrentID st + length ss"
  by (induction ss arbitrary: st) simp_all

section \<open>Replay and the parsing of the last-seen id\<close>

lemma cell_simps [simp]: "cell None = JUndefined" "cell (Some s) = JString s"
  by (simp_all add: cell_def)

lemma replay_nonneg:
  "0 \<le> i \<Longrightarrow> replay i hist = map cell (drop (nat i) hist)"
proof (induction i hist rule: replay.induct)
  case (1 eid hist)
  show ?case
  proof (cases "eid < int (length hist)")
    case True
    with "1.prems" have n: "nat eid < length hist" by simp
    have s: "nat (eid + 1) = Suc (nat eid)" using "1.prems" by simp
    have "replay eid hist = array_get hist eid # replay (eid + 1) hist"
      using True by (simp add: replay.simps [of eid])
    also have "replay (eid + 1) hist = map cell (drop (Suc (nat eid)) hist)"
      using "1.IH" [OF True] "1.prems" s by simp
    also have "array_get hist eid = cell (hist ! nat eid)"
      using True "1.prems" by (simp add: array_get_def)
    finally show ?thesis
      using n by (simp add: Cons_nth_drop_Suc [symmetric])
  next
    case False
    then show ?thesis using "1.prems" by (simp add: replay.simps [of eid])
  qed
qed

lemma replay_neg:
  "i \<le> 0 \<Longrightarrow> replay i hist = replicate (nat (- i)) JUndefined @ replay 0 hist"
proof (induction "nat (- i)" arbitrary: i)
  case 0
  then have "i = 0" by simp
  then show ?case by simp
next
  case (Suc k)
  then have neg: "i < 0" and k: "k = nat (- (i + 1))" and le: "i + 1 \<le> 0" by simp_all
  have "replay i hist = array_get hist i # replay (i + 1) hist"
    using neg by (simp add: replay.simps [of i])
  also have "array_get hist i = JUndefined" using neg by (simp add: array_get_def)
  also have "replay (i + 1) hist = replicate (nat (- (i + 1))) JUndefined @ replay 0 hist"
    using Suc.hyps(1) [OF k le] .
  finally show ?case using Suc.hyps(2) k
    by (metis append_Cons replicate_Suc)
qed

lemma of_char_digitChar: "d < 10 \<Longrightarrow> (of_char (digitChar d) :: nat) = 48 + d"
  by (auto simp add: digitChar_def less_Suc_eq numeral_eq_Suc nth_Cons')

lemma isDigit_digitChar: "d < 10 \<Longrightarrow> isDigit (digitChar d)"
  by (simp add: isDigit_def of_char_digitChar)

lemma digitVal_digitChar: "d < 10 \<Longrightarrow> digitVal (digitChar d) = int d"
  by (simp add: digitVal_def of_char_digitChar)

lemma decimal_digits: "c \<in> set (decimal n) \<Longrightarrow> isDigit c"
proof (induction n arbitrary: c rule: decimal.induct)
  case (1 n)
  show ?case
  proof (cases "n < 10")
    case True
    with "1.prems" show ?thesis by (simp add: decimal.simps [of n] isDigit_digitChar)
  next
    case False
    with "1.prems" have "c \<in> set (decimal (n div 10)) \<or> c = digitChar (n mod 10)"
      by (auto simp add: decimal.simps [of n])
    then show ?thesis using "1.IH" [OF False] by (auto simp add: isDigit_digitChar)
  qed
qed

lemma decimal_nonempty: "decimal n \<noteq> []"
  by (simp add: decimal.simps [of n])

lemma decimal_value: "foldl (\<lambda>a c. 10 * a + digitVal c) 0 (decimal n) = int n"
proof (induction n rule: decimal.induct)
  case (1 n)
  show ?case
  proof (cases "n < 10")
    case True
    then show ?thesis by (simp add: decimal.simps [of n] digitVal_digitChar)
  next
    case False
    have "int n = 10 * int (n div 10) + int (n mod 10)" by presburger
    then show ?thesis using False "1.IH" [OF False]
      by (simp add: decimal.simps [of n] digitVal_digitChar)
  qed
qed

lemma isDigit_not_special:
  "isDigit c \<Longrightarrow> \<not> isWhiteSpace c \<and> c \<noteq> CHR ''-'' \<and> c \<noteq> CHR ''+''"
  by (auto simp add: isDigit_def isWhiteSpace_def)


lemma parseInt_decimal:
  assumes "int n \<le> MAX_SAFE_INTEGER"
  shows "parseInt (JString (decimal n)) = Num (int n)"
proof -
  obtain c cs where d: "decimal n = c # cs"
    using decimal_nonempty [of n] by (cases "decimal n") auto
  have c: "isDigit c" using decimal_digits [of c n] d by simp
  have all: "\<forall>x \<in> set (decimal n). isDigit x" using decimal_digits by blast
  have w: "dropWhile isWhiteSpace (decimal n) = decimal n"
    using c isDigit_not_special [of c] d by simp
  have t: "takeWhile isDigit (decimal n) = decimal n"
    using all by (simp add: takeWhile_eq_all_conv)
  have h: "hd (decimal n) \<noteq> CHR ''-''" "hd (decimal n) \<noteq> CHR ''+''"
    using c isDigit_not_special [of c] d by simp_all
  have "NumberValue (int n) = Num (int n)"
    using assms by (intro NumberValue_exact) (simp add: MAX_SAFE_INTEGER_def)
  then show ?thesis
    using decimal_nonempty [of n]
    by (simp add: parseInt_def w t h Let_def decimal_value)
qed

lemma parseInt_negative_decimal:
  assumes "int n \<le> MAX_SAFE_INTEGER"
  shows "parseInt (JString (CHR ''-'' # decimal n)) = Num (- int n)"
proof -
  have all: "\<forall>x \<in> set (decimal n). isDigit x" using decimal_digits by blast
  have t: "takeWhile isDigit (decimal n) = decimal n"
    using all by (simp add: takeWhile_eq_all_conv)
  have w: "\<not> isWhiteSpace CHR ''-''" by (simp add: isWhiteSpace_def)
  have "NumberValue (- int n) = Num (- int n)"
    using assms by (intro NumberValue_exact) (simp add: MAX_SAFE_INTEGER_def)
  then show ?thesis
    using decimal_nonempty [of n]
    by (simp add: parseInt_def w t Let_def decimal_value)
qed

lemma parseInt_NumberToString:
  assumes "\<bar>j\<bar> \<le> MAX_SAFE_INTEGER"
  shows "parseInt (JString (NumberToString j)) = Num j"
proof (cases "j < 0")
  case True
  then show ?thesis
    using assms parseInt_negative_decimal [of "nat (- j)"] by (simp add: NumberToString_def)
next
  case False
  then show ?thesis
    using assms parseInt_decimal [of "nat j"] by (simp add: NumberToString_def)
qed

section \<open>What a commit changes\<close>

lemma listeners_writeSavingID [simp]:
  "listeners (writeSavingID s st) = listeners st"
  by (simp add: writeSavingID_def write_data_def Let_def)

lemma data_listeners_writeSavingID [simp]:
  "data_listeners (writeSavingID s st) = data_listeners st"
  by (simp add: data_listeners_def)

lemma registrations_writeSavingID [simp]:
  "registrations x (writeSavingID s st) = registrations x st"
  by (simp add: registrations_def)

lemma deliveries_writeSavingID:
  "deliveries (writeSavingID s st)
     = deliveries st
       @ map (\<lambda>l'. (lid l', JString (frame_of (serverCurrentID st) s))) (data_listeners st)"
  by (simp add: writeSavingID_def write_data_def Let_def data_listeners_def)

lemma messageHistory_writeSavingID:
  "messageHistory (writeSavingID s st)
     = array_set (messageHistory st) (serverCurrentID st) (frame_of (serverCurrentID st) s)"
  by (simp add: writeSavingID_def write_data_def Let_def)

lemma messageHistory_writeSavingID_append:
  "serverCurrentID st = length (messageHistory st) \<Longrightarrow>
   messageHistory (writeSavingID s st)
     = messageHistory st @ [Some (frame_of (serverCurrentID st) s)]"
  by (simp add: messageHistory_writeSavingID array_set_def)

lemma filter_lid_map:
  "map snd (filter (\<lambda>d. fst d = x) (map (\<lambda>l'. (lid l', v)) ls))
     = replicate (length (filter (\<lambda>l'. lid l' = x) ls)) v"
  by (induction ls) simp_all

lemma received_writeSavingID:
  "received x (writeSavingID s st)
     = received x st @ replicate (registrations x st) (JString (frame_of (serverCurrentID st) s))"
  by (simp add: received_def deliveries_writeSavingID registrations_def filter_lid_map)

lemma listeners_commits [simp]: "listeners (commits ss st) = listeners st"
  by (induction ss arbitrary: st) simp_all

lemma registrations_commits [simp]: "registrations x (commits ss st) = registrations x st"
  by (induction ss arbitrary: st) simp_all

lemma messageHistory_commits:
  "serverCurrentID st = length (messageHistory st) \<Longrightarrow>
   messageHistory (commits ss st)
     = messageHistory st @ map Some (frames_from (serverCurrentID st) ss)"
proof (induction ss arbitrary: st)
  case Nil
  show ?case by simp
next
  case (Cons s ss)
  have "serverCurrentID (writeSavingID s st) = length (messageHistory (writeSavingID s st))"
    using Cons.prems by (simp add: messageHistory_writeSavingID_append)
  from Cons.IH [OF this] show ?case
    using Cons.prems by (simp add: messageHistory_writeSavingID_append)
qed

lemma received_commits:
  "received x (commits ss st)
     = received x st
       @ concat (map (\<lambda>f. replicate (registrations x st) (JString f))
                     (frames_from (serverCurrentID st) ss))"
proof (induction ss arbitrary: st)
  case Nil
  show ?case by simp
next
  case (Cons s ss)
  show ?case by (simp add: Cons.IH received_writeSavingID)
qed

lemma received_commits_once:
  "registrations x st = 1 \<Longrightarrow>
   received x (commits ss st)
     = received x st @ map JString (frames_from (serverCurrentID st) ss)"
  by (simp add: received_commits concat_map_singleton)

lemma length_frames_from [simp]: "length (frames_from n ss) = length ss"
  by (induction ss arbitrary: n) simp_all

lemma nth_frames_from:
  "i < length ss \<Longrightarrow> frames_from n ss ! i = frame_of (n + i) (ss ! i)"
proof (induction ss arbitrary: n i)
  case Nil
  then show ?case by simp
next
  case (Cons s ss)
  then show ?case by (cases i) simp_all
qed

section \<open>What a notification changes\<close>

lemma notify_fields [simp]:
  "messageHistory (notify about event l st) = messageHistory st"
  "serverCurrentID (notify about event l st) = serverCurrentID st"
  "listeners (notify about event l st) = listeners st"
  "deliveries (notify about event l st) = deliveries st"
  by (simp_all add: notify_def)

section \<open>Reachable states\<close>

text \<open>
  Every operation keeps the state consistent, so the hypotheses below on the counter and
  on the history hold of every state a proxy reaches.
\<close>

lemma consistent_makeProxyEmitter: "consistent makeProxyEmitter"
  by (simp add: consistent_def makeProxyEmitter_def)

lemma consistent_writeSavingID: "consistent st \<Longrightarrow> consistent (writeSavingID s st)"
  by (simp add: consistent_def messageHistory_writeSavingID_append)

lemma consistent_commits: "consistent st \<Longrightarrow> consistent (commits ss st)"
  by (induction ss arbitrary: st) (simp_all add: consistent_writeSavingID)

lemma consistent_proxy_on:
  "consistent st \<Longrightarrow> proxy_on event l st = Some st' \<Longrightarrow> consistent st'"
  by (auto simp add: consistent_def proxy_on_def newListener_def split: if_splits option.splits)

lemma consistent_removeListener: "consistent st \<Longrightarrow> consistent (removeListener event l st)"
  by (simp add: consistent_def removeListener_def)

lemma consistent_source_emit:
  "consistent st \<Longrightarrow> consistent (source_emit serialize eventSpecs eventName args st)"
  by (simp add: source_emit_def makeHandler_def consistent_writeSavingID split: option.splits)

lemma consistent_frames:
  "consistent st \<Longrightarrow>
   messageHistory st = map Some (map the (messageHistory st))
   \<and> serverCurrentID st = length (map the (messageHistory st))"
proof -
  have "list_all (\<lambda>x. x \<noteq> None) xs \<Longrightarrow> xs = map Some (map the xs)" for xs :: "string option list"
    by (induction xs) auto
  then show "consistent st \<Longrightarrow> ?thesis"
    by (simp add: consistent_def)
qed

section \<open>Sequence IDs\<close>

text \<open>
  C2. In a run of N commits on a fresh proxy, the calls of \<^verbatim>\<open>writeSavingID\<close> take the
  ids 0, 1, ..., N-1, in commit order; the counter ends at N, and the history holds, at
  each index below N, the frame of that commit with that index as its id.
\<close>

theorem monotonic_ids:
  "assigned_ids ss makeProxyEmitter = [0 ..< length ss]
   \<and> serverCurrentID (commits ss makeProxyEmitter) = length ss
   \<and> messageHistory (commits ss makeProxyEmitter) = map Some (frames_from 0 ss)"
proof -
  have fresh: "serverCurrentID makeProxyEmitter = 0" "messageHistory makeProxyEmitter = []"
    by (simp_all add: makeProxyEmitter_def)
  have "messageHistory (commits ss makeProxyEmitter) = map Some (frames_from 0 ss)"
    using messageHistory_commits [of makeProxyEmitter ss] by (simp add: fresh)
  then show ?thesis
    by (simp add: assigned_ids_from serverCurrentID_commits fresh)
qed


section \<open>Numbers past the exact integers\<close>

lemma bitLength_le: "n < 2 ^ k \<Longrightarrow> bitLength n \<le> k"
proof (cases "n = 0")
  case True
  then show ?thesis by (simp add: bitLength.simps [of 0])
next
  case False
  assume "n < 2 ^ k"
  with bitLength_lower [OF False] have "(2::nat) ^ (bitLength n - 1) < 2 ^ k"
    by (rule le_less_trans)
  then have "bitLength n - 1 < k" by simp
  then show ?thesis by simp
qed

lemma bitLength_54: "2 ^ 53 \<le> n \<Longrightarrow> n < 2 ^ 54 \<Longrightarrow> bitLength n = 54"
  using bitLength_gt [of 53 n] bitLength_le [of n 54] by simp

lemma NumberValue_PosInfinity: "2 ^ 1024 \<le> i \<Longrightarrow> NumberValue i = PosInfinity"
proof -
  assume i: "2 ^ 1024 \<le> i"
  then have "(2::nat) ^ 1024 \<le> nat \<bar>i\<bar>" by simp
  then have "(2::nat) ^ 1024 \<le> roundToDouble (nat \<bar>i\<bar>)"
    by (intro roundToDouble_lower) simp_all
  then have "(2::int) ^ 1024 \<le> int (roundToDouble (nat \<bar>i\<bar>))"
    by (metis of_nat_le_iff of_nat_numeral of_nat_power)
  then show ?thesis using i by (simp add: NumberValue_def double_of_def sgn_if)
qed

lemma NumberValue_NegInfinity: "i \<le> - (2 ^ 1024) \<Longrightarrow> NumberValue i = NegInfinity"
proof -
  assume i: "i \<le> - (2 ^ 1024)"
  then have "(2::nat) ^ 1024 \<le> nat \<bar>i\<bar>" by simp
  then have "(2::nat) ^ 1024 \<le> roundToDouble (nat \<bar>i\<bar>)"
    by (intro roundToDouble_lower) simp_all
  then have "(2::int) ^ 1024 \<le> int (roundToDouble (nat \<bar>i\<bar>))"
    by (metis of_nat_le_iff of_nat_numeral of_nat_power)
  then show ?thesis using i by (simp add: NumberValue_def double_of_def sgn_if)
qed

lemma foldl_nines:
  "foldl (\<lambda>a c. 10 * a + digitVal c) a (replicate n CHR ''9'') = (a + 1) * 10 ^ n - 1"
proof (induction n arbitrary: a)
  case 0
  show ?case by simp
next
  case (Suc n)
  have "foldl (\<lambda>a c. 10 * a + digitVal c) a (replicate (Suc n) CHR ''9'')
          = foldl (\<lambda>a c. 10 * a + digitVal c) (10 * a + 9) (replicate n CHR ''9'')"
    by (simp add: digitVal_def)
  also have "\<dots> = (10 * a + 9 + 1) * 10 ^ n - 1" by (rule Suc.IH)
  also have "\<dots> = (a + 1) * 10 ^ Suc n - 1" by (simp add: algebra_simps)
  finally show ?case .
qed

lemma parseInt_nines:
  "0 < n \<Longrightarrow> parseInt (JString (replicate n CHR ''9'')) = NumberValue (10 ^ n - 1)"
proof -
  assume n: "0 < n"
  have d: "isDigit CHR ''9''" "\<not> isWhiteSpace CHR ''9''"
    by (simp_all add: isDigit_def isWhiteSpace_def)
  have t: "takeWhile isDigit (replicate n CHR ''9'') = replicate n CHR ''9''"
    using d by (simp add: takeWhile_eq_all_conv)
  have w: "dropWhile isWhiteSpace (replicate n CHR ''9'') = replicate n CHR ''9''"
    using d n by (cases n) simp_all
  have h: "hd (replicate n CHR ''9'') = CHR ''9''"
    using n by (cases n) simp_all
  show ?thesis
    using n d by (simp add: parseInt_def t h Let_def foldl_nines)
qed

lemma parseInt_minus_nines:
  "0 < n \<Longrightarrow> parseInt (JString (CHR ''-'' # replicate n CHR ''9'')) = NumberValue (- (10 ^ n - 1))"
proof -
  assume n: "0 < n"
  have d: "isDigit CHR ''9''" "\<not> isWhiteSpace CHR ''-''"
    by (simp_all add: isDigit_def isWhiteSpace_def)
  have t: "takeWhile isDigit (replicate n CHR ''9'') = replicate n CHR ''9''"
    using d by (simp add: takeWhile_eq_all_conv)
  show ?thesis
    using n d by (simp add: parseInt_def t Let_def foldl_nines)
qed

lemma parseInt_310_nines: "parseInt (JString (replicate 310 CHR ''9'')) = PosInfinity"
  by (simp only: parseInt_nines [of 310, simplified]) (rule NumberValue_PosInfinity, simp)

lemma parseInt_minus_310_nines:
  "parseInt (JString (CHR ''-'' # replicate 310 CHR ''9'')) = NegInfinity"
  by (simp only: parseInt_minus_nines [of 310, simplified]) (rule NumberValue_NegInfinity, simp)

section \<open>Registration\<close>

lemma startEventId_absent: "own_lastEventId l = None \<Longrightarrow> startEventId l = 0"
  by (simp add: startEventId_def hasOwnProperty_lastEventId_def)

lemma startEventId_own:
  "own_lastEventId l = Some v \<Longrightarrow>
   startEventId l = (case parseInt v of Num n \<Rightarrow> plus_one n | _ \<Rightarrow> 0)"
  by (simp add: startEventId_def hasOwnProperty_lastEventId_def get_lastEventId_def)


lemma newListener_data:
  "- (2 ^ 53) \<le> startEventId l \<Longrightarrow>
   newListener ''data'' l st
     = Some (st\<lparr>deliveries := deliveries st
                  @ map (\<lambda>v. (lid l, v)) (replay (startEventId l) (messageHistory st))\<rparr>)"
  by (simp add: newListener_def replay_loop_exact)

lemma newListener_other: "event \<noteq> ''data'' \<Longrightarrow> newListener event l st = Some st"
  by (simp add: newListener_def)

lemma proxy_on_Some:
  "newListener event l st = Some st1 \<Longrightarrow>
   proxy_on event l st
     = Some ((notify ''newListener'' event l st1)\<lparr>listeners := listeners st1 @ [(event, l)]\<rparr>)"
  by (simp add: proxy_on_def)

lemma received_append_own:
  "deliveries st' = deliveries st @ map (\<lambda>v. (x, v)) vs \<Longrightarrow>
   received x st' = received x st @ vs"
  by (simp add: received_def filter_map o_def)

lemma registrations_on_data:
  "listeners st' = listeners st @ [(''data'', l)] \<Longrightarrow>
   registrations x st' = registrations x st + (if lid l = x then 1 else 0)"
  by (simp add: registrations_def data_listeners_def)

text \<open>
  C1. The history holds the frames \<open>fs\<close> with the ids 0..k (k + 1 = \<open>length fs\<close>), and a
  function that is not yet registered for \<^verbatim>\<open>data\<close> is registered with the last-seen id
  \<open>j\<close>, \<open>-1 \<le> j \<le> k\<close>, as the decimal string of \<open>j\<close> in its own \<^verbatim>\<open>lastEventId\<close>
  (or, for \<open>j = -1\<close>, with no such property). Then the registration returns, and the calls
  it makes are exactly the frames j+1..k, in id order, to that function. After any run
  \<open>ss\<close> of later commits the function has received those frames and then the frame of
  each later commit, once each and in commit order; for the empty run, nothing more.
\<close>

theorem replay_completeness:
  assumes hist: "messageHistory st = map Some fs"
      and cnt: "serverCurrentID st = length fs"
      and len: "int (length fs) \<le> MAX_SAFE_INTEGER"
      and j: "- 1 \<le> j" "j < int (length fs)"
      and sup: "own_lastEventId l = Some (JString (NumberToString j))
                \<or> (j = - 1 \<and> own_lastEventId l = None)"
      and fresh: "registrations (lid l) st = 0"
  shows "map_option deliveries (proxy_on ''data'' l st)
           = Some (deliveries st @ map (\<lambda>f. (lid l, JString f)) (drop (nat (j + 1)) fs))
         \<and> map_option (\<lambda>st'. received (lid l) (commits ss st')) (proxy_on ''data'' l st)
           = Some (received (lid l) st @ map JString (drop (nat (j + 1)) fs)
                   @ map JString (frames_from (length fs) ss))"
proof -
  let ?old = "map JString (drop (nat (j + 1)) fs)"
  let ?st1 = "st\<lparr>deliveries := deliveries st @ map (\<lambda>v. (lid l, v)) ?old\<rparr>"
  let ?st' = "(notify ''newListener'' ''data'' l ?st1)\<lparr>listeners := listeners ?st1 @ [(''data'', l)]\<rparr>"
  have safe: "j < 2 ^ 53"
    using j len by (simp add: MAX_SAFE_INTEGER_def)
  have start: "startEventId l = j + 1"
  proof (cases "own_lastEventId l")
    case None
    with sup have "j = - 1" by auto
    with None show ?thesis by (simp add: startEventId_absent)
  next
    case (Some v)
    with sup have v: "v = JString (NumberToString j)" by auto
    have "\<bar>j\<bar> \<le> MAX_SAFE_INTEGER"
      using j len by (simp add: MAX_SAFE_INTEGER_def)
    then have "parseInt v = Num j" unfolding v by (rule parseInt_NumberToString)
    moreover have "plus_one j = j + 1"
      using j safe by (intro plus_one_exact) simp_all
    ultimately show ?thesis using Some by (simp add: startEventId_own)
  qed
  have rep: "replay (j + 1) (messageHistory st) = ?old"
    using j by (simp add: hist replay_nonneg drop_map o_def)
  have "- (2 ^ 53) \<le> startEventId l"
    using start j by simp
  then have "newListener ''data'' l st = Some ?st1"
    by (simp add: newListener_data start rep)
  then have on: "proxy_on ''data'' l st = Some ?st'"
    by (rule proxy_on_Some)
  have d: "deliveries ?st' = deliveries st @ map (\<lambda>f. (lid l, JString f)) (drop (nat (j + 1)) fs)"
    by simp
  have r: "received (lid l) ?st' = received (lid l) st @ ?old"
    by (rule received_append_own) simp
  have once: "registrations (lid l) ?st' = 1"
    using fresh registrations_on_data [of ?st' st l "lid l"] by simp
  have c: "serverCurrentID ?st' = length fs"
    using cnt by simp
  have "received (lid l) (commits ss ?st')
          = received (lid l) st @ ?old @ map JString (frames_from (length fs) ss)"
    using received_commits_once [OF once, of ss] by (simp only: r c append_assoc)
  with on d show ?thesis by simp
qed

theorem replay_completeness_witness:
  "map_option deliveries
     (proxy_on ''data'' \<lparr>lid = 7, own_lastEventId = Some (JString ''0''), proto_lastEventId = None\<rparr>
        \<lparr>messageHistory = [Some (''id: 0'' @ [CHR 0x0A] @ ''a''), Some (''id: 1'' @ [CHR 0x0A] @ ''b'')],
          serverCurrentID = 2, listeners = [], deliveries = [], notifications = []\<rparr>)
   = Some [(7, JString (''id: 1'' @ [CHR 0x0A] @ ''b''))]
   \<and> map_option (\<lambda>st'. received 7 (commits [''c''] st'))
     (proxy_on ''data'' \<lparr>lid = 7, own_lastEventId = Some (JString ''0''), proto_lastEventId = None\<rparr>
        \<lparr>messageHistory = [Some (''id: 0'' @ [CHR 0x0A] @ ''a''), Some (''id: 1'' @ [CHR 0x0A] @ ''b'')],
          serverCurrentID = 2, listeners = [], deliveries = [], notifications = []\<rparr>)
   = Some [JString (''id: 1'' @ [CHR 0x0A] @ ''b''), JString (''id: 2'' @ [CHR 0x0A] @ ''c'')]"
  using replay_completeness [of
      "\<lparr>messageHistory = [Some (''id: 0'' @ [CHR 0x0A] @ ''a''), Some (''id: 1'' @ [CHR 0x0A] @ ''b'')],
          serverCurrentID = 2, listeners = [], deliveries = [], notifications = []\<rparr>"
      "[''id: 0'' @ [CHR 0x0A] @ ''a'', ''id: 1'' @ [CHR 0x0A] @ ''b'']" 0
      "\<lparr>lid = 7, own_lastEventId = Some (JString ''0''), proto_lastEventId = None\<rparr>" "[''c'']"]
  by (simp add: NumberToString_def decimal.simps digitChar_def MAX_SAFE_INTEGER_def
        registrations_def data_listeners_def received_def frame_of_def)

lemma deliveries_commits:
  "deliveries (commits ss st)
     = deliveries st
       @ concat (map (\<lambda>f. map (\<lambda>l'. (lid l', JString f)) (data_listeners st))
                     (frames_from (serverCurrentID st) ss))"
proof (induction ss arbitrary: st)
  case Nil
  show ?case by simp
next
  case (Cons s ss)
  show ?case by (simp add: Cons.IH deliveries_writeSavingID)
qed

lemma replay_beyond_end: "int (length hist) \<le> i \<Longrightarrow> replay i hist = []"
  by (simp add: replay.simps [of i])

lemma replay_all: "replay 0 hist = map cell hist"
  by (simp add: replay_nonneg)

text \<open>Concrete inputs: some parses, and the proxy after the commits of \<^verbatim>\<open>a\<close> and \<^verbatim>\<open>b\<close>.\<close>

lemmas parse_defs =
  parseInt_def isWhiteSpace_def isDigit_def digitVal_def Let_def NumberValue_exact

lemma parseInt_abc: "parseInt (JString ''abc'') = NaN"
  by (simp add: parse_defs)

lemma parseInt_5: "parseInt (JString ''5'') = Num 5"
  by (simp add: parse_defs)

lemma parseInt_m1: "parseInt (JString ''-1'') = Num (- 1)"
  by (simp add: parse_defs)

lemma parseInt_m2: "parseInt (JString ''-2'') = Num (- 2)"
  by (simp add: parse_defs)

lemma roundToDouble_examples:
  "roundToDouble 9007199254740993 = 9007199254740992"
  "roundToDouble 9007199254740995 = 9007199254740996"
  "roundToDouble 9007199254740996 = 9007199254740996"
proof -
  have b: "bitLength 9007199254740993 = 54" "bitLength 9007199254740995 = 54"
    "bitLength 9007199254740996 = 54"
    by (rule bitLength_54, simp, simp)+
  show "roundToDouble 9007199254740993 = 9007199254740992"
    unfolding roundToDouble_def Let_def b by simp
  show "roundToDouble 9007199254740995 = 9007199254740996"
    unfolding roundToDouble_def Let_def b by simp
  show "roundToDouble 9007199254740996 = 9007199254740996"
    unfolding roundToDouble_def Let_def b by simp
qed

lemma NumberValue_examples:
  "NumberValue 9007199254740993 = Num 9007199254740992"
  "NumberValue (- 9007199254740996) = Num (- 9007199254740996)"
  "plus_one (- 9007199254740996) = - 9007199254740996"
  by (simp_all add: NumberValue_def plus_one_def double_of_def roundToDouble_examples)

lemma parseInt_rounded: "parseInt (JString ''9007199254740993'') = Num 9007199254740992"
  by (simp add: parseInt_def isWhiteSpace_def isDigit_def digitVal_def Let_def NumberValue_examples)

lemma parseInt_far_below: "parseInt (JString ''-9007199254740996'') = Num (- 9007199254740996)"
  by (simp add: parseInt_def isWhiteSpace_def isDigit_def digitVal_def Let_def NumberValue_examples)

lemma two_frames_eq:
  "writeSavingID ''b'' (writeSavingID ''a'' makeProxyEmitter) =
     \<lparr>messageHistory = [Some (''id: 0'' @ [CHR 0x0A] @ ''a''), Some (''id: 1'' @ [CHR 0x0A] @ ''b'')],
      serverCurrentID = 2, listeners = [], deliveries = [], notifications = []\<rparr>"
  by (simp add: makeProxyEmitter_def writeSavingID_def write_data_def Let_def array_set_def
        frame_of_def NumberToString_def decimal.simps digitChar_def data_listeners_def)

text \<open>
  A last-seen id far below \<open>- (2 ^ 53)\<close>: the start of the loop is a double that
  \<^verbatim>\<open>++id\<close> does not change, so the loop calls the listener with \<^verbatim>\<open>undefined\<close> for
  ever and the registration does not return.
\<close>

lemma registration_does_not_return:
  "proxy_on ''data''
     \<lparr>lid = 7, own_lastEventId = Some (JString ''-9007199254740996''), proto_lastEventId = None\<rparr> st
   = None"
proof -
  let ?l = "\<lparr>lid = 7, own_lastEventId = Some (JString ''-9007199254740996''),
              proto_lastEventId = None\<rparr>"
  have p: "plus_one (- 9007199254740996) = - 9007199254740996"
    by (rule NumberValue_examples)
  have s: "startEventId ?l = - 9007199254740996"
    by (simp add: startEventId_own parseInt_far_below p)
  have "replay_loop (- 9007199254740996) (messageHistory st) [] = None"
    by (rule replay_loop_stuck) (simp_all add: increment_def p)
  then show ?thesis
    by (simp add: proxy_on_def newListener_def s)
qed

section \<open>A malformed last-seen id\<close>

text \<open>
  C3, as stated, fails. With the ids 0 and 1 committed, a listener with no last-seen id is
  sent both frames. A listener whose last-seen id is 5 (greater than the largest committed
  id) is sent nothing. A listener whose last-seen id is -2 is first called with
  \<^verbatim>\<open>undefined\<close> (the loop starts at index -1) and then sent both frames.
\<close>

theorem out_of_range_id_counterexample:
  "map_option deliveries
     (proxy_on ''data'' \<lparr>lid = 7, own_lastEventId = None, proto_lastEventId = None\<rparr>
        (commits [''a'', ''b''] makeProxyEmitter))
   = Some [(7, JString (''id: 0'' @ [CHR 0x0A] @ ''a'')), (7, JString (''id: 1'' @ [CHR 0x0A] @ ''b''))]
   \<and> map_option deliveries
     (proxy_on ''data'' \<lparr>lid = 7, own_lastEventId = Some (JString ''5''), proto_lastEventId = None\<rparr>
        (commits [''a'', ''b''] makeProxyEmitter))
   = Some []
   \<and> map_option deliveries
     (proxy_on ''data'' \<lparr>lid = 7, own_lastEventId = Some (JString ''-2''), proto_lastEventId = None\<rparr>
        (commits [''a'', ''b''] makeProxyEmitter))
   = Some [(7, JUndefined), (7, JString (''id: 0'' @ [CHR 0x0A] @ ''a'')),
           (7, JString (''id: 1'' @ [CHR 0x0A] @ ''b''))]"
  by (simp add: two_frames_eq proxy_on_def newListener_def startEventId_def
        hasOwnProperty_lastEventId_def get_lastEventId_def parseInt_5 parseInt_m2
        plus_one_exact replay_loop_exact replay_neg [of "- 1"] replay_nonneg replay_beyond_end)

text \<open>
  C3, amended. A last-seen id that \<^verbatim>\<open>parseInt\<close> reads as \<^verbatim>\<open>NaN\<close> (non-numeric text),
  as an infinity (digits that round to \<open>2 ^ 1024\<close> or more) or as -1 is treated as
  absent: the registration returns and has replayed the whole history, from id 0. A
  last-seen id that is read as a finite number \<open>j\<close> at or past the largest committed id
  makes the registration return with nothing replayed (the history being no longer than
  \<open>2 ^ 53\<close>, as every array is).
\<close>

theorem malformed_last_seen_id:
  assumes own: "own_lastEventId l = Some v"
  shows "(parseInt v = NaN \<or> parseInt v = PosInfinity \<or> parseInt v = NegInfinity
          \<or> parseInt v = Num (- 1) \<longrightarrow>
            newListener ''data'' l st = newListener ''data'' (l\<lparr>own_lastEventId := None\<rparr>) st
          \<and> newListener ''data'' l st
              = Some (st\<lparr>deliveries := deliveries st
                           @ map (\<lambda>v. (lid l, v)) (map cell (messageHistory st))\<rparr>))
       \<and> (parseInt v = Num j \<and> int (length (messageHistory st)) \<le> j + 1
          \<and> int (length (messageHistory st)) \<le> 2 ^ 53 \<longrightarrow>
            newListener ''data'' l st = Some st)"
proof (intro conjI impI)
  assume p: "parseInt v = NaN \<or> parseInt v = PosInfinity \<or> parseInt v = NegInfinity
             \<or> parseInt v = Num (- 1)"
  have "plus_one (- 1) = 0" by (simp add: plus_one_exact)
  then have s: "startEventId l = 0"
    using p own by (auto simp add: startEventId_own)
  have a: "startEventId (l\<lparr>own_lastEventId := None\<rparr>) = 0"
    by (simp add: startEventId_absent)
  show "newListener ''data'' l st = newListener ''data'' (l\<lparr>own_lastEventId := None\<rparr>) st"
    by (simp add: newListener_data s a)
  show "newListener ''data'' l st
          = Some (st\<lparr>deliveries := deliveries st
                       @ map (\<lambda>v. (lid l, v)) (map cell (messageHistory st))\<rparr>)"
    by (simp add: newListener_data s replay_all)
next
  assume h: "parseInt v = Num j \<and> int (length (messageHistory st)) \<le> j + 1
             \<and> int (length (messageHistory st)) \<le> 2 ^ 53"
  then have s: "startEventId l = plus_one j"
    using own by (simp add: startEventId_own)
  have e: "int (length (messageHistory st)) \<le> plus_one j"
  proof (cases "j < 2 ^ 53")
    case True
    moreover from h have "- 1 \<le> j" by simp
    ultimately have "plus_one j = j + 1" by (intro plus_one_exact) simp_all
    with h show ?thesis by simp
  next
    case False
    then have "2 ^ 53 \<le> plus_one j" by (intro plus_one_large) simp
    with h show ?thesis by simp
  qed
  then have "- (2 ^ 53) \<le> startEventId l" by (simp add: s)
  then show "newListener ''data'' l st = Some st"
    by (simp add: newListener_data s replay_beyond_end [OF e])
qed

theorem malformed_last_seen_id_witness:
  "newListener ''data'' \<lparr>lid = 7, own_lastEventId = Some (JString ''abc''), proto_lastEventId = None\<rparr>
     (commits [''a'', ''b''] makeProxyEmitter)
   = Some ((commits [''a'', ''b''] makeProxyEmitter)
        \<lparr>deliveries := [(7, JString (''id: 0'' @ [CHR 0x0A] @ ''a'')),
                        (7, JString (''id: 1'' @ [CHR 0x0A] @ ''b''))]\<rparr>)
   \<and> newListener ''data''
       \<lparr>lid = 7, own_lastEventId = Some (JString (replicate 310 CHR ''9'')), proto_lastEventId = None\<rparr>
       (commits [''a'', ''b''] makeProxyEmitter)
     = Some ((commits [''a'', ''b''] makeProxyEmitter)
          \<lparr>deliveries := [(7, JString (''id: 0'' @ [CHR 0x0A] @ ''a'')),
                          (7, JString (''id: 1'' @ [CHR 0x0A] @ ''b''))]\<rparr>)
   \<and> newListener ''data''
       \<lparr>lid = 7, own_lastEventId = Some (JString (CHR ''-'' # replicate 310 CHR ''9'')),
          proto_lastEventId = None\<rparr>
       (commits [''a'', ''b''] makeProxyEmitter)
     = Some ((commits [''a'', ''b''] makeProxyEmitter)
          \<lparr>deliveries := [(7, JString (''id: 0'' @ [CHR 0x0A] @ ''a'')),
                          (7, JString (''id: 1'' @ [CHR 0x0A] @ ''b''))]\<rparr>)
   \<and> newListener ''data'' \<lparr>lid = 7, own_lastEventId = Some (JString ''-1''), proto_lastEventId = None\<rparr>
       (commits [''a'', ''b''] makeProxyEmitter)
     = Some ((commits [''a'', ''b''] makeProxyEmitter)
          \<lparr>deliveries := [(7, JString (''id: 0'' @ [CHR 0x0A] @ ''a'')),
                          (7, JString (''id: 1'' @ [CHR 0x0A] @ ''b''))]\<rparr>)
   \<and> newListener ''data'' \<lparr>lid = 7, own_lastEventId = Some (JString ''5''), proto_lastEventId = None\<rparr>
       (commits [''a'', ''b''] makeProxyEmitter)
     = Some (commits [''a'', ''b''] makeProxyEmitter)
   \<and> newListener ''data''
       \<lparr>lid = 7, own_lastEventId = Some (JString ''9007199254740993''), proto_lastEventId = None\<rparr>
       (commits [''a'', ''b''] makeProxyEmitter)
     = Some (commits [''a'', ''b''] makeProxyEmitter)"
proof -
  let ?st = "commits [''a'', ''b''] makeProxyEmitter"
  let ?full = "Some (?st\<lparr>deliveries := [(7, JString (''id: 0'' @ [CHR 0x0A] @ ''a'')),
                                         (7, JString (''id: 1'' @ [CHR 0x0A] @ ''b''))]\<rparr>)"
  have full: "newListener ''data'' \<lparr>lid = 7, own_lastEventId = Some v, proto_lastEventId = None\<rparr> ?st
                = ?full"
    if "parseInt v = NaN \<or> parseInt v = PosInfinity \<or> parseInt v = NegInfinity
        \<or> parseInt v = Num (- 1)" for v
    using malformed_last_seen_id [of
        "\<lparr>lid = 7, own_lastEventId = Some v, proto_lastEventId = None\<rparr>" v ?st 0] that
    by (auto simp add: two_frames_eq)
  have none: "newListener ''data'' \<lparr>lid = 7, own_lastEventId = Some v, proto_lastEventId = None\<rparr> ?st
                = Some ?st"
    if "parseInt v = Num j" "1 \<le> j" for v j
    using malformed_last_seen_id [of
        "\<lparr>lid = 7, own_lastEventId = Some v, proto_lastEventId = None\<rparr>" v ?st j] that
    by (simp add: two_frames_eq)
  show ?thesis
    using full [of "JString ''abc''"] full [of "JString (replicate 310 CHR ''9'')"]
      full [of "JString (CHR ''-'' # replicate 310 CHR ''9'')"] full [of "JString ''-1''"]
      none [of "JString ''5''" 5] none [of "JString ''9007199254740993''" 9007199254740992]
    by (simp only: parseInt_abc parseInt_310_nines parseInt_minus_310_nines parseInt_m1
          parseInt_5 parseInt_rounded) simp
qed

section \<open>The committed frame\<close>

lemma commits_append: "commits (ss @ ts) st = commits ts (commits ss st)"
  by (induction ss arbitrary: st) simp_all

lemma array_get_array_set: "array_get (array_set xs i s) (int i) = JString s"
  by (simp add: array_get_def array_set_def nth_append)

lemma array_get_writeSavingID:
  "array_get (messageHistory (writeSavingID s st)) (int (serverCurrentID st))
     = JString (frame_of (serverCurrentID st) s)"
  by (simp add: messageHistory_writeSavingID array_get_array_set)

lemma decimal_positional:
  "\<exists>ds. decimal n = map (\<lambda>d. ''0123456789'' ! d) ds \<and> ds \<noteq> [] \<and> (\<forall>d\<in>set ds. d < 10)
        \<and> foldl (\<lambda>a d. 10 * a + d) 0 ds = n \<and> (hd ds = 0 \<longrightarrow> ds = [0])"
proof (induction n rule: decimal.induct)
  case (1 n)
  show ?case
  proof (cases "n < 10")
    case True
    then have "decimal n = map (\<lambda>d. ''0123456789'' ! d) [n] \<and> [n] \<noteq> [] \<and> (\<forall>d\<in>set [n]. d < 10)
        \<and> foldl (\<lambda>a d. 10 * a + d) 0 [n] = n \<and> (hd [n] = 0 \<longrightarrow> [n] = [0])"
      by (simp add: decimal.simps [of n] digitChar_def)
    then show ?thesis by (rule exI)
  next
    case False
    from "1.IH" [OF False] obtain ds where
      "decimal (n div 10) = map (\<lambda>d. ''0123456789'' ! d) ds \<and> ds \<noteq> [] \<and> (\<forall>d\<in>set ds. d < 10)
        \<and> foldl (\<lambda>a d. 10 * a + d) 0 ds = n div 10 \<and> (hd ds = 0 \<longrightarrow> ds = [0])" ..
    then have ds: "decimal (n div 10) = map (\<lambda>d. ''0123456789'' ! d) ds" "ds \<noteq> []"
        "\<forall>d\<in>set ds. d < 10" "foldl (\<lambda>a d. 10 * a + d) 0 ds = n div 10"
        "hd ds = 0 \<longrightarrow> ds = [0]"
      by simp_all
    let ?ds = "ds @ [n mod 10]"
    have lead: "hd ds \<noteq> 0"
    proof
      assume "hd ds = 0"
      with ds(5) have "ds = [0]" by simp
      with ds(4) have "n div 10 = 0" by simp
      with False show False by simp
    qed
    have "decimal n = map (\<lambda>d. ''0123456789'' ! d) ?ds"
      using False ds(1) by (simp add: decimal.simps [of n] digitChar_def)
    moreover have "?ds \<noteq> []" by simp
    moreover have "\<forall>d\<in>set ?ds. d < 10" using ds(3) by simp
    moreover have "foldl (\<lambda>a d. 10 * a + d) 0 ?ds = n" using ds(4) by simp
    moreover have "hd ?ds = 0 \<longrightarrow> ?ds = [0]" using lead ds(2) by simp
    ultimately have "decimal n = map (\<lambda>d. ''0123456789'' ! d) ?ds \<and> ?ds \<noteq> []
        \<and> (\<forall>d\<in>set ?ds. d < 10) \<and> foldl (\<lambda>a d. 10 * a + d) 0 ?ds = n
        \<and> (hd ?ds = 0 \<longrightarrow> ?ds = [0])"
      by (intro conjI)
    then show ?thesis by (rule exI)
  qed
qed

text \<open>
  C4. A commit of the string \<open>s\<close> at counter \<open>id\<close>, with the function \<open>l\<close> registered for
  \<^verbatim>\<open>data\<close>: the string stored under \<open>id\<close> is \<^verbatim>\<open>"id: " + id + "\n" + s\<close>; the calls the
  commit makes are that one string to each registration for \<^verbatim>\<open>data\<close>, in registration
  order, \<open>l\<close> among them; and the rendering of \<open>id\<close> is its decimal numeral: the digit
  characters of digits \<open>ds\<close> below 10, most significant first, whose value is \<open>id\<close>, with
  no leading zero but for \<open>id = 0\<close>. On a fresh proxy the commit after the run \<open>ss\<close> has
  \<open>id = length ss\<close>.
\<close>

theorem committed_frame_format:
  assumes sub: "(''data'', l) \<in> set (listeners st)"
  shows "array_get (messageHistory (writeSavingID s st)) (int (serverCurrentID st))
           = JString (''id: '' @ NumberToString (int (serverCurrentID st)) @ [CHR 0x0A] @ s)
         \<and> deliveries (writeSavingID s st)
           = deliveries st
             @ map (\<lambda>(e, l').
                     (lid l',
                      JString (''id: '' @ NumberToString (int (serverCurrentID st)) @ [CHR 0x0A] @ s)))
                 (filter (\<lambda>(e, l'). e = ''data'') (listeners st))
         \<and> (lid l, JString (''id: '' @ NumberToString (int (serverCurrentID st)) @ [CHR 0x0A] @ s))
             \<in> set (deliveries (writeSavingID s st))
         \<and> (\<exists>ds. NumberToString (int (serverCurrentID st)) = map (\<lambda>d. ''0123456789'' ! d) ds
                 \<and> ds \<noteq> [] \<and> (\<forall>d\<in>set ds. d < 10)
                 \<and> foldl (\<lambda>a d. 10 * a + d) 0 ds = serverCurrentID st
                 \<and> (hd ds = 0 \<longrightarrow> ds = [0]))
         \<and> array_get (messageHistory (commits (ss @ [s]) makeProxyEmitter)) (int (length ss))
           = JString (''id: '' @ NumberToString (int (length ss)) @ [CHR 0x0A] @ s)"
proof -
  let ?frame = "''id: '' @ NumberToString (int (serverCurrentID st)) @ [CHR 0x0A] @ s"
  have f: "frame_of (serverCurrentID st) s = ?frame"
    by (simp add: frame_of_def)
  have stored: "array_get (messageHistory (writeSavingID s st)) (int (serverCurrentID st))
                  = JString ?frame"
    by (simp only: array_get_writeSavingID f)
  have sent: "deliveries (writeSavingID s st)
                = deliveries st
                  @ map (\<lambda>(e, l'). (lid l', JString ?frame))
                      (filter (\<lambda>(e, l'). e = ''data'') (listeners st))"
    by (simp add: deliveries_writeSavingID data_listeners_def f split_def o_def)
  have mem: "(lid l, JString ?frame) \<in> set (deliveries (writeSavingID s st))"
    using sub unfolding sent by (force simp add: image_iff)
  have digits: "\<exists>ds. NumberToString (int (serverCurrentID st)) = map (\<lambda>d. ''0123456789'' ! d) ds
                 \<and> ds \<noteq> [] \<and> (\<forall>d\<in>set ds. d < 10)
                 \<and> foldl (\<lambda>a d. 10 * a + d) 0 ds = serverCurrentID st
                 \<and> (hd ds = 0 \<longrightarrow> ds = [0])"
    using decimal_positional [of "serverCurrentID st"] by (simp add: NumberToString_def)
  have n: "serverCurrentID (commits ss makeProxyEmitter) = length ss"
    by (simp add: serverCurrentID_commits makeProxyEmitter_def)
  have fresh: "array_get (messageHistory (commits (ss @ [s]) makeProxyEmitter)) (int (length ss))
          = JString (''id: '' @ NumberToString (int (length ss)) @ [CHR 0x0A] @ s)"
    using array_get_writeSavingID [of s "commits ss makeProxyEmitter"]
    by (simp add: commits_append n frame_of_def)
  from stored sent mem digits fresh show ?thesis by blast
qed

theorem committed_frame_format_witness:
  "array_get
     (messageHistory (writeSavingID ''x''
        \<lparr>messageHistory = replicate 10 (Some ''e''), serverCurrentID = 10,
          listeners = [(''data'', \<lparr>lid = 3, own_lastEventId = None, proto_lastEventId = None\<rparr>)],
          deliveries = [], notifications = []\<rparr>)) 10
   = JString (''id: 10'' @ [CHR 0x0A] @ ''x'')
   \<and> deliveries (writeSavingID ''x''
        \<lparr>messageHistory = replicate 10 (Some ''e''), serverCurrentID = 10,
          listeners = [(''data'', \<lparr>lid = 3, own_lastEventId = None, proto_lastEventId = None\<rparr>)],
          deliveries = [], notifications = []\<rparr>)
   = [(3, JString (''id: 10'' @ [CHR 0x0A] @ ''x''))]"
proof -
  let ?l = "\<lparr>lid = 3, own_lastEventId = None, proto_lastEventId = None\<rparr>"
  let ?st = "\<lparr>messageHistory = replicate 10 (Some ''e''), serverCurrentID = 10,
               listeners = [(''data'', ?l)], deliveries = [], notifications = []\<rparr>"
  have sub: "(''data'', ?l) \<in> set (listeners ?st)"
    by simp
  have r: "NumberToString (int (serverCurrentID ?st)) = ''10''"
    by (simp add: NumberToString_def decimal.simps digitChar_def)
  from committed_frame_format [OF sub, of "''x''" "[]"]
  have "array_get (messageHistory (writeSavingID ''x'' ?st)) (int (serverCurrentID ?st))
          = JString (''id: '' @ NumberToString (int (serverCurrentID ?st)) @ [CHR 0x0A] @ ''x'')"
    and "deliveries (writeSavingID ''x'' ?st)
          = deliveries ?st
            @ map (\<lambda>(e, l').
                    (lid l',
                     JString (''id: '' @ NumberToString (int (serverCurrentID ?st)) @ [CHR 0x0A] @ ''x'')))
                (filter (\<lambda>(e, l'). e = ''data'') (listeners ?st))"
    by blast+
  then show ?thesis
    unfolding r by simp
qed

section \<open>Source events\<close>

text \<open>
  C5. An event of the source emitter whose name is not a key of the event specification
  leaves the proxy as it is: no frame, no call of a listener, the counter and the history
  unchanged. (In the witness, the listed name \<^verbatim>\<open>a\<close> does advance the counter.)
\<close>

theorem unlisted_event_isolated:
  "eventSpecs eventName = None \<Longrightarrow> source_emit serialize eventSpecs eventName args st = st"
  by (simp add: source_emit_def)

theorem unlisted_event_isolated_witness:
  "source_emit ToString [''a'' \<mapsto> SpecTrue] ''b'' [] makeProxyEmitter = makeProxyEmitter
   \<and> serverCurrentID (source_emit ToString [''a'' \<mapsto> SpecTrue] ''a'' [] makeProxyEmitter) = 1"
  using unlisted_event_isolated [of "[''a'' \<mapsto> SpecTrue]" "''b''" ToString "[]" makeProxyEmitter]
  by (simp add: source_emit_def makeHandler_def preProcessor_of_def makeProxyEmitter_def)

text \<open>
  C7. A handler whose pre-processor calls its continuation for the argument \<^verbatim>\<open>true\<close>,
  with that value, and not for \<^verbatim>\<open>false\<close>, is called with true, false, true, false:
  the sink is called exactly twice, each time with the frame of \<^verbatim>\<open>true\<close> under the
  effective event name.
\<close>

theorem filter_correctness:
  assumes "pp [JBool True] = Some (JBool True)" and "pp [JBool False] = None"
  shows "calls (makeHandler serialize sourceEventName
                  (SpecObject \<lparr>spec_name = n, spec_preProcessor = Some pp\<rparr>) push)
           [[JBool True], [JBool False], [JBool True], [JBool False]] []
         = [format serialize (case n of None \<Rightarrow> sourceEventName | Some c \<Rightarrow> c) (JBool True),
            format serialize (case n of None \<Rightarrow> sourceEventName | Some c \<Rightarrow> c) (JBool True)]"
  using assms by (simp add: makeHandler_def preProcessor_of_def effective_name_def push_def)

theorem filter_correctness_witness:
  "calls (makeHandler ToString ''handlerName''
            (SpecObject \<lparr>spec_name = Some ''customName'',
               spec_preProcessor =
                 Some (\<lambda>args. if first_argument args = JBool False then None
                               else Some (first_argument args))\<rparr>) push)
     [[JBool True], [JBool False], [JBool True], [JBool False]] []
   = [''event: customName'' @ [CHR 0x0A] @ ''data: true'' @ [CHR 0x0A, CHR 0x0A],
      ''event: customName'' @ [CHR 0x0A] @ ''data: true'' @ [CHR 0x0A, CHR 0x0A]]"
  using filter_correctness [of
      "\<lambda>args. if first_argument args = JBool False then None else Some (first_argument args)"
      ToString "''handlerName''" "Some ''customName''"]
  by (simp add: first_argument_def format_def)


section \<open>Listeners of other events, and the own property\<close>

text \<open>
  C8. Adding a listener for an event other than \<^verbatim>\<open>data\<close> appends it to the listeners,
  after the emitter has told the listeners a caller added for \<^verbatim>\<open>newListener\<close>: no
  replay, no stored frame sent to it or to anyone, and no later commit calls it.
\<close>

theorem replay_only_for_data:
  assumes "event \<noteq> ''data''"
  shows "proxy_on event l st
           = Some (st\<lparr>notifications := notifications st
                         @ map (\<lambda>x. (lid x, ''newListener'', event, lid l))
                             (listeners_of ''newListener'' st),
                      listeners := listeners st @ [(event, l)]\<rparr>)
         \<and> map_option deliveries (proxy_on event l st) = Some (deliveries st)
         \<and> map_option (\<lambda>st'. deliveries (commits ss st')) (proxy_on event l st)
           = Some (deliveries (commits ss st))"
proof -
  let ?st' = "st\<lparr>notifications := notifications st
                   @ map (\<lambda>x. (lid x, ''newListener'', event, lid l))
                       (listeners_of ''newListener'' st),
                listeners := listeners st @ [(event, l)]\<rparr>"
  have on: "proxy_on event l st = Some ?st'"
    using assms by (simp add: proxy_on_def newListener_other notify_def)
  have "data_listeners ?st' = data_listeners st"
    using assms by (simp add: data_listeners_def)
  then have "deliveries (commits ss ?st') = deliveries (commits ss st)"
    by (simp add: deliveries_commits)
  with on show ?thesis by simp
qed

theorem replay_only_for_data_witness:
  "proxy_on ''end'' \<lparr>lid = 7, own_lastEventId = None, proto_lastEventId = None\<rparr>
     (commits [''a'', ''b''] makeProxyEmitter)
   = Some \<lparr>messageHistory = [Some (''id: 0'' @ [CHR 0x0A] @ ''a''), Some (''id: 1'' @ [CHR 0x0A] @ ''b'')],
      serverCurrentID = 2,
      listeners = [(''end'', \<lparr>lid = 7, own_lastEventId = None, proto_lastEventId = None\<rparr>)],
      deliveries = [], notifications = []\<rparr>"
  using replay_only_for_data [of "''end''"
      "\<lparr>lid = 7, own_lastEventId = None, proto_lastEventId = None\<rparr>"
      "commits [''a'', ''b''] makeProxyEmitter" "[]"]
  by (simp add: two_frames_eq listeners_of_def)

text \<open>
  C10. The start of the replay does not depend on what \<^verbatim>\<open>lastEventId\<close> the listener
  inherits; a listener with no own \<^verbatim>\<open>lastEventId\<close> is sent the whole history, from id 0.
\<close>

theorem last_seen_id_own_property_only:
  "startEventId (l\<lparr>proto_lastEventId := p\<rparr>) = startEventId l
   \<and> (own_lastEventId l = None \<longrightarrow>
        newListener ''data'' l st
          = Some (st\<lparr>deliveries := deliveries st
                       @ map (\<lambda>v. (lid l, v)) (map cell (messageHistory st))\<rparr>))"
proof -
  have "startEventId (l\<lparr>proto_lastEventId := p\<rparr>) = startEventId l"
    by (simp add: startEventId_def hasOwnProperty_lastEventId_def get_lastEventId_def
          split: option.splits)
  moreover have "newListener ''data'' l st
          = Some (st\<lparr>deliveries := deliveries st
                       @ map (\<lambda>v. (lid l, v)) (map cell (messageHistory st))\<rparr>)"
    if "own_lastEventId l = None"
    using that by (simp add: newListener_data startEventId_absent replay_all)
  ultimately show ?thesis by blast
qed

theorem last_seen_id_own_property_only_witness:
  "newListener ''data'' \<lparr>lid = 7, own_lastEventId = None, proto_lastEventId = Some (JString ''0'')\<rparr>
     (commits [''a'', ''b''] makeProxyEmitter)
   = Some \<lparr>messageHistory = [Some (''id: 0'' @ [CHR 0x0A] @ ''a''), Some (''id: 1'' @ [CHR 0x0A] @ ''b'')],
      serverCurrentID = 2, listeners = [],
      deliveries = [(7, JString (''id: 0'' @ [CHR 0x0A] @ ''a'')),
                    (7, JString (''id: 1'' @ [CHR 0x0A] @ ''b''))],
      notifications = []\<rparr>"
  using last_seen_id_own_property_only [where
      l = "\<lparr>lid = 7, own_lastEventId = None, proto_lastEventId = Some (JString ''0'')\<rparr>"
      and p = "Some (JString ''0'')" and st = "commits [''a'', ''b''] makeProxyEmitter"]
  by (simp add: two_frames_eq)

section \<open>Independence of subscribers, and the stored frame\<close>









text \<open>
  C9. In a state where the counter is the length of the history, the frame a commit
  sends to the listeners is the string it stores under its id; that entry is still the
  same after any run \<open>ss\<close> of later commits, and a replay from any index up to the id
  delivers the same string at the position of the id. From such an index the loop ends
  and makes exactly the calls of that replay.
\<close>

theorem stored_frame_is_broadcast_frame:
  assumes wf: "serverCurrentID st = length (messageHistory st)"
  shows "deliveries (writeSavingID s st)
           = deliveries st
             @ map (\<lambda>l'. (lid l', JString (frame_of (serverCurrentID st) s))) (data_listeners st)
         \<and> array_get (messageHistory (commits ss (writeSavingID s st))) (int (serverCurrentID st))
           = JString (frame_of (serverCurrentID st) s)
         \<and> (0 \<le> start \<and> start \<le> int (serverCurrentID st) \<longrightarrow>
              replay start (messageHistory (commits ss (writeSavingID s st)))
                ! nat (int (serverCurrentID st) - start)
              = JString (frame_of (serverCurrentID st) s))
         \<and> (0 \<le> start \<and> start \<le> int (serverCurrentID st) \<longrightarrow>
              replay_loop start (messageHistory (commits ss (writeSavingID s st))) []
              = Some (replay start (messageHistory (commits ss (writeSavingID s st)))))"
proof -
  let ?n = "serverCurrentID st"
  let ?st1 = "writeSavingID s st"
  let ?h = "messageHistory (commits ss ?st1)"
  have wf1: "serverCurrentID ?st1 = length (messageHistory ?st1)"
    using wf by (simp add: messageHistory_writeSavingID_append)
  have h: "?h = messageHistory st @ Some (frame_of ?n s) # map Some (frames_from (Suc ?n) ss)"
    using messageHistory_commits [OF wf1, of ss] wf
    by (simp add: messageHistory_writeSavingID_append)
  have len: "?n < length ?h" and nth: "?h ! ?n = Some (frame_of ?n s)"
    using wf by (simp_all add: h nth_append)
  have get: "array_get ?h (int ?n) = JString (frame_of ?n s)"
    using len nth by (simp add: array_get_def)
  have rep: "replay start ?h ! nat (int ?n - start) = JString (frame_of ?n s)"
    if "0 \<le> start \<and> start \<le> int ?n"
  proof -
    from that have k: "nat start + nat (int ?n - start) = ?n" by arith
    have "nat (int ?n - start) < length (drop (nat start) ?h)"
      using len that unfolding length_drop by arith
    then have "map cell (drop (nat start) ?h) ! nat (int ?n - start)
            = cell (drop (nat start) ?h ! nat (int ?n - start))"
      by (rule nth_map)
    also have "drop (nat start) ?h ! nat (int ?n - start) = ?h ! ?n"
      using len that k by (simp add: nth_drop del: length_drop)
    finally show ?thesis
      using that by (simp add: replay_nonneg nth)
  qed
  have loop: "replay_loop start ?h [] = Some (replay start ?h)"
    if "0 \<le> start \<and> start \<le> int ?n"
    using that by (simp add: replay_loop_exact)
  from get rep loop show ?thesis
    by (simp add: deliveries_writeSavingID)
qed

lemma plus_one_rounded: "plus_one 9007199254740992 = 9007199254740992"
  by (simp add: plus_one_def double_of_def roundToDouble_examples)

lemmas run_defs =
  writeSavingID_def write_data_def Let_def array_set_def frame_of_def NumberToString_def
  decimal.simps digitChar_def data_listeners_def received_def proxy_on_def newListener_def
  startEventId_def hasOwnProperty_lastEventId_def get_lastEventId_def removeListener_def
  notify_def listeners_of_def replay_loop_exact replay_nonneg replay_beyond_end
  parseInt_rounded plus_one_rounded


theorem stored_frame_is_broadcast_frame_witness:
  "deliveries (writeSavingID ''c''
     \<lparr>messageHistory = [Some (''id: 0'' @ [CHR 0x0A] @ ''a'')], serverCurrentID = 1,
       listeners = [(''data'', \<lparr>lid = 3, own_lastEventId = None, proto_lastEventId = None\<rparr>)],
       deliveries = [], notifications = []\<rparr>)
   = [(3, JString (''id: 1'' @ [CHR 0x0A] @ ''c''))]
   \<and> replay 1 (messageHistory (commits [''d''] (writeSavingID ''c''
       \<lparr>messageHistory = [Some (''id: 0'' @ [CHR 0x0A] @ ''a'')], serverCurrentID = 1,
         listeners = [(''data'', \<lparr>lid = 3, own_lastEventId = None, proto_lastEventId = None\<rparr>)],
         deliveries = [], notifications = []\<rparr>))) ! 0
   = JString (''id: 1'' @ [CHR 0x0A] @ ''c'')
   \<and> replay_loop 1 (messageHistory (commits [''d''] (writeSavingID ''c''
       \<lparr>messageHistory = [Some (''id: 0'' @ [CHR 0x0A] @ ''a'')], serverCurrentID = 1,
         listeners = [(''data'', \<lparr>lid = 3, own_lastEventId = None, proto_lastEventId = None\<rparr>)],
         deliveries = [], notifications = []\<rparr>))) []
   = Some [JString (''id: 1'' @ [CHR 0x0A] @ ''c''), JString (''id: 2'' @ [CHR 0x0A] @ ''d'')]"
  using stored_frame_is_broadcast_frame [of
      "\<lparr>messageHistory = [Some (''id: 0'' @ [CHR 0x0A] @ ''a'')], serverCurrentID = 1,
         listeners = [(''data'', \<lparr>lid = 3, own_lastEventId = None, proto_lastEventId = None\<rparr>)],
         deliveries = [], notifications = []\<rparr>" "''c''" "[''d'']" 1]
  by (simp add: run_defs)

end
